theory Spec2Isabelle
  imports Main
begin

section \<open>Text and characters\<close>

text \<open>
  Python's \<open>str\<close> is a sequence of code points. The model writes text as \<open>string\<close>
  (a list of \<open>char\<close>), one \<open>char\<close> for each code point below 256.
  \<open>is_space\<close> is the class \<^verbatim>\<open>\s\<close> of the \<open>re\<close> module for \<open>str\<close> patterns on that
  range (the code points for which \<open>str.isspace\<close> holds): 9 to 13, 28 to 32, 133 and 160.
\<close>

definition is_space :: "char \<Rightarrow> bool" where
  "is_space c = (of_char c \<in> {9, 10, 11, 12, 13, 28, 29, 30, 31, 32, 133, 160 :: nat})"

definition newline :: char where
  "newline = CHR 0x0A"

definition backslash :: char where
  "backslash = CHR 0x5C"

definition dquote :: char where
  "dquote = CHR 0x22"

section \<open>The regular expressions of the plugin, and a backtracking matcher\<close>

text \<open>
  The fragment of \<open>re\<close> syntax the two patterns of \<^verbatim>\<open>default_syntax.py\<close> use: the anchor
  \<^verbatim>\<open>^\<close> (under \<open>re.MULTILINE\<close>), single characters and the classes \<^verbatim>\<open>\s\<close> and \<^verbatim>\<open>\S\<close>, the
  greedy repetition \<^verbatim>\<open>+\<close> of one of these, the greedy option \<^verbatim>\<open>?\<close>, sequencing, and one
  capturing group.
\<close>

datatype atom = Lit char | Cls_s | Cls_S

fun atom_ok :: "atom \<Rightarrow> char \<Rightarrow> bool" where
  "atom_ok (Lit d) c = (c = d)"
| "atom_ok Cls_s c = is_space c"
| "atom_ok Cls_S c = (\<not> is_space c)"

datatype regex =
    Bol
  | Atom atom
  | Plus atom
  | Opt regex
  | Seq regex regex
  | Group regex

text \<open>
  A matcher state is the text consumed since the start of the match, the text still
  ahead, and the text of group 1 once the group has been closed.
\<close>

type_synonym mstate = "string \<times> string \<times> string option"

text \<open>
  \<open>star a acc rest g k\<close> is the greedy loop of a repetition: it takes characters as long
  as they are in the class, then hands over to the continuation \<open>k\<close>, giving back one
  character at a time while \<open>k\<close> fails.
\<close>

fun star :: "atom \<Rightarrow> string \<Rightarrow> string \<Rightarrow> string option \<Rightarrow> (mstate \<Rightarrow> mstate option) \<Rightarrow> mstate option" where
  "star a acc [] g k = k (acc, [], g)"
| "star a acc (c # cs) g k =
     (if atom_ok a c then
        (case star a (acc @ [c]) cs g k of
           Some r \<Rightarrow> Some r
         | None \<Rightarrow> k (acc, c # cs, g))
      else k (acc, c # cs, g))"

text \<open>
  \<open>rmatch bol r st k\<close> matches \<open>r\<close> at state \<open>st\<close> and continues with \<open>k\<close>; \<open>bol\<close> tells
  whether the match started at the beginning of a line. \<^verbatim>\<open>^\<close> holds at the start of the
  text and right after a line feed.
\<close>

fun rmatch :: "bool \<Rightarrow> regex \<Rightarrow> mstate \<Rightarrow> (mstate \<Rightarrow> mstate option) \<Rightarrow> mstate option" where
  "rmatch bol Bol (acc, rest, g) k =
     (if (if acc = [] then bol else last acc = newline) then k (acc, rest, g) else None)"
| "rmatch bol (Atom a) (acc, rest, g) k =
     (case rest of
        [] \<Rightarrow> None
      | c # cs \<Rightarrow> if atom_ok a c then k (acc @ [c], cs, g) else None)"
| "rmatch bol (Plus a) (acc, rest, g) k =
     (case rest of
        [] \<Rightarrow> None
      | c # cs \<Rightarrow> if atom_ok a c then star a (acc @ [c]) cs g k else None)"
| "rmatch bol (Opt r) st k =
     (case rmatch bol r st k of
        Some res \<Rightarrow> Some res
      | None \<Rightarrow> k st)"
| "rmatch bol (Seq r1 r2) st k = rmatch bol r1 st (\<lambda>st'. rmatch bol r2 st' k)"
| "rmatch bol (Group r) (acc, rest, g) k =
     rmatch bol r (acc, rest, g) (\<lambda>(acc', rest', _). k (acc', rest', Some (drop (length acc) acc')))"

definition match_here :: "regex \<Rightarrow> bool \<Rightarrow> string \<Rightarrow> mstate option" where
  "match_here r bol s = rmatch bol r ([], s, None) Some"

fun lits :: "string \<Rightarrow> regex \<Rightarrow> regex" where
  "lits [] r = r"
| "lits (c # cs) r = Seq (Atom (Lit c)) (lits cs r)"

text \<open>The optional list marker \<^verbatim>\<open>(?:-\s+)?\<close>, which both patterns share.\<close>

definition dash_re :: regex where
  "dash_re = Opt (Seq (Atom (Lit CHR ''-'')) (Plus Cls_s))"

text \<open>
  The pattern of \<open>SetDefaultSyntaxDialect.run\<close>,
  \<^verbatim>\<open>(^extends:\s+(?:-\s+)?)\S+\<close>: group 1 is the directive up to the token.
\<close>

definition extends_re :: regex where
  "extends_re =
     Seq (Group (Seq Bol (lits ''extends:'' (Seq (Plus Cls_s) dash_re))))
         (Plus Cls_S)"

text \<open>
  The pattern of \<open>DialectFileInputHandler.list_items\<close>,
  \<^verbatim>\<open>^extends:\s+(?:-\s+)?(\S+)\<close>: group 1 is the token.
\<close>

definition selected_re :: regex where
  "selected_re =
     Seq Bol (lits ''extends:''
       (Seq (Plus Cls_s) (Seq dash_re (Group (Plus Cls_S)))))"

text \<open>
  \<open>re.search\<close> and the scan of \<open>re.sub\<close> try the pattern at each position from left to
  right and stop at the first position where it matches. The result is the text skipped
  before the match and the matcher's final state. \<open>bol\<close> tells whether the first
  position follows a line feed (or is the start of the text).
\<close>

fun search :: "regex \<Rightarrow> bool \<Rightarrow> string \<Rightarrow> (string \<times> mstate) option" where
  "search r bol [] = map_option (Pair []) (match_here r bol [])"
| "search r bol (c # cs) =
     (case match_here r bol (c # cs) of
        Some st \<Rightarrow> Some ([], st)
      | None \<Rightarrow> map_option (\<lambda>(pre, st). (c # pre, st)) (search r (c = newline) cs))"

section \<open>Replacement templates of \<open>re.sub\<close>\<close>

text \<open>
  \<open>re.sub\<close> parses its replacement string as a template before it looks at the text
  (\<open>parse_template\<close> of the \<open>re\<close> module): a backslash starts a group reference
  (\<^verbatim>\<open>\1\<close>, \<^verbatim>\<open>\12\<close>, \<^verbatim>\<open>\g<1>\<close>), an octal escape (\<^verbatim>\<open>\0\<close>, \<^verbatim>\<open>\07\<close>, \<^verbatim>\<open>\123\<close>) or one of
  the escapes \<^verbatim>\<open>\a \b \f \n \r \t \v \\\<close>; a backslash before another ASCII letter, or at
  the end, is an error (Python 3.7 and later); before any other character it stays, with
  that character. A reference to a group the pattern does not have is an error.
  The result \<open>None\<close> stands for the exception (\<open>re.error\<close>, or \<open>IndexError\<close> for an unknown
  group name). A name in \<^verbatim>\<open>\g<...>\<close> is read as a group number when it consists of ASCII
  digits, and is an error otherwise, the patterns here having no named group.
\<close>

datatype tpart = T_lit char | T_group nat

definition is_digit :: "char \<Rightarrow> bool" where
  "is_digit c = (48 \<le> (of_char c :: nat) \<and> (of_char c :: nat) \<le> 57)"

definition is_octdigit :: "char \<Rightarrow> bool" where
  "is_octdigit c = (48 \<le> (of_char c :: nat) \<and> (of_char c :: nat) \<le> 55)"

definition is_ascii_letter :: "char \<Rightarrow> bool" where
  "is_ascii_letter c =
     ((65 \<le> (of_char c :: nat) \<and> (of_char c :: nat) \<le> 90) \<or>
      (97 \<le> (of_char c :: nat) \<and> (of_char c :: nat) \<le> 122))"

definition digit_val :: "char \<Rightarrow> nat" where
  "digit_val c = of_char c - 48"

definition dec :: "string \<Rightarrow> nat" where
  "dec ds = foldl (\<lambda>v d. 10 * v + digit_val d) 0 ds"

definition escapes :: "char \<Rightarrow> char option" where
  "escapes e =
     (if e = CHR ''a'' then Some (CHR 0x07)
      else if e = CHR ''b'' then Some (CHR 0x08)
      else if e = CHR ''f'' then Some (CHR 0x0C)
      else if e = CHR ''n'' then Some (CHR 0x0A)
      else if e = CHR ''r'' then Some (CHR 0x0D)
      else if e = CHR ''t'' then Some (CHR 0x09)
      else if e = CHR ''v'' then Some (CHR 0x0B)
      else if e = backslash then Some backslash
      else None)"

definition add_lit :: "nat \<Rightarrow> tpart list option \<Rightarrow> tpart list option" where
  "add_lit v ts = map_option ((#) (T_lit (char_of v))) ts"

definition addgroup :: "nat \<Rightarrow> nat \<Rightarrow> tpart list option \<Rightarrow> tpart list option" where
  "addgroup groups index ts =
     (if index > groups then None else map_option ((#) (T_group index)) ts)"

function parse_template :: "nat \<Rightarrow> string \<Rightarrow> tpart list option" where
  "parse_template groups [] = Some []"
| "parse_template groups (c # cs) =
     (if c \<noteq> backslash then map_option ((#) (T_lit c)) (parse_template groups cs)
      else
        (case cs of
           [] \<Rightarrow> None
         | e # r \<Rightarrow>
             if e = CHR ''g'' then
               (case r of
                  [] \<Rightarrow> None
                | lt # r1 \<Rightarrow>
                    if lt \<noteq> CHR ''<'' then None
                    else
                      (let name = takeWhile (\<lambda>x. x \<noteq> CHR ''>'') r1;
                           r2 = dropWhile (\<lambda>x. x \<noteq> CHR ''>'') r1
                       in if r2 = [] \<or> name = [] \<or> \<not> list_all is_digit name then None
                          else addgroup groups (dec name) (parse_template groups (tl r2))))
             else if e = CHR ''0'' then
               (case r of
                  [] \<Rightarrow> add_lit 0 (parse_template groups r)
                | d1 # r1 \<Rightarrow>
                    if is_octdigit d1 then
                      (case r1 of
                         [] \<Rightarrow> add_lit (digit_val d1) (parse_template groups r1)
                       | d2 # r2 \<Rightarrow>
                           if is_octdigit d2
                           then add_lit (8 * digit_val d1 + digit_val d2) (parse_template groups r2)
                           else add_lit (digit_val d1) (parse_template groups r1))
                    else add_lit 0 (parse_template groups r))
             else if is_digit e then
               (case r of
                  [] \<Rightarrow> addgroup groups (digit_val e) (parse_template groups r)
                | d2 # r1 \<Rightarrow>
                    if is_digit d2 then
                      (case r1 of
                         [] \<Rightarrow> addgroup groups (10 * digit_val e + digit_val d2) (parse_template groups r1)
                       | d3 # r2 \<Rightarrow>
                           if is_octdigit e \<and> is_octdigit d2 \<and> is_octdigit d3 then
                             (let v = 64 * digit_val e + 8 * digit_val d2 + digit_val d3
                              in if v > 255 then None else add_lit v (parse_template groups r2))
                           else addgroup groups (10 * digit_val e + digit_val d2) (parse_template groups r1))
                    else addgroup groups (digit_val e) (parse_template groups r))
             else
               (case escapes e of
                  Some x \<Rightarrow> map_option ((#) (T_lit x)) (parse_template groups r)
                | None \<Rightarrow>
                    if is_ascii_letter e then None
                    else map_option (\<lambda>ts. T_lit c # T_lit e # ts) (parse_template groups r))))"
  by pat_completeness auto
termination
proof -
  have shorter: "length (dropWhile P xs) - Suc 0 \<le> Suc (Suc (length xs))" for P and xs :: string
    using length_dropWhile_le [of P xs] by arith
  show ?thesis
    by (relation "measure (\<lambda>(groups, s). length s)") (auto simp: less_Suc_eq_le shorter)
qed

text \<open>
  Expanding a parsed template for one match: group 0 is the whole match, group 1 the
  captured text (empty when the group took no part in the match).
\<close>

fun expand_template :: "tpart list \<Rightarrow> string \<Rightarrow> string option \<Rightarrow> string" where
  "expand_template [] m g = []"
| "expand_template (T_lit c # ts) m g = c # expand_template ts m g"
| "expand_template (T_group i # ts) m g =
     (if i = 0 then m else (case g of None \<Rightarrow> [] | Some t \<Rightarrow> t)) @ expand_template ts m g"

section \<open>What the two patterns match\<close>

text \<open>
  The backtracking of the two patterns always ends in the same place, which the next
  definitions describe without a search: after \<^verbatim>\<open>extends:\<close> comes the longest run of
  blanks, then, if a dash, a run of blanks and one more character follow, these too;
  the token is the longest run of non-blank characters from there. The lemmas
  \<open>match_extends\<close> and \<open>match_selected\<close> prove that the matcher computes just this.
\<close>

definition header_split :: "string \<Rightarrow> (string \<times> string) option" where
  "header_split s =
     (if take 8 s = ''extends:'' then
        (let r1 = drop 8 s; w1 = takeWhile is_space r1; r2 = dropWhile is_space r1 in
         if w1 = [] \<or> r2 = [] then None
         else
           (let w2 = takeWhile is_space (tl r2); r3 = dropWhile is_space (tl r2) in
            if hd r2 = CHR ''-'' \<and> w2 \<noteq> [] \<and> r3 \<noteq> []
            then Some (''extends:'' @ w1 @ ''-'' @ w2, r3)
            else Some (''extends:'' @ w1, r2)))
      else None)"

lemma star_fail_on_class:
  assumes "\<And>acc' c cs. atom_ok a c \<Longrightarrow> k (acc', c # cs, g) = None"
  shows "star a acc s g k = k (acc @ takeWhile (atom_ok a) s, dropWhile (atom_ok a) s, g)"
  using assms by (induction s arbitrary: acc) (auto split: option.splits)

lemma star_total:
  assumes "\<And>st. k st \<noteq> None"
  shows "star a acc s g k = k (acc @ takeWhile (atom_ok a) s, dropWhile (atom_ok a) s, g)"
  using assms
proof (induction s arbitrary: acc)
  case Nil
  then show ?case by simp
next
  case (Cons c s)
  show ?case
  proof (cases "atom_ok a c")
    case True
    have "star a (acc @ [c]) s g k = k ((acc @ [c]) @ takeWhile (atom_ok a) s, dropWhile (atom_ok a) s, g)"
      using Cons by blast
    moreover have "k ((acc @ [c]) @ takeWhile (atom_ok a) s, dropWhile (atom_ok a) s, g) \<noteq> None"
      using Cons.prems by blast
    ultimately show ?thesis using True by (auto split: option.splits)
  next
    case False
    then show ?thesis by simp
  qed
qed

lemma atom_ok_Cls_s [simp]: "atom_ok Cls_s = is_space"
  by (rule ext) simp

lemma atom_ok_Cls_S [simp]: "atom_ok Cls_S = (\<lambda>c. \<not> is_space c)"
  by (rule ext) simp

lemma rmatch_token:
  "rmatch bol (Plus Cls_S) (acc, rest, g) Some =
     (if rest = [] \<or> is_space (hd rest) then None
      else Some (acc @ takeWhile (\<lambda>c. \<not> is_space c) rest, dropWhile (\<lambda>c. \<not> is_space c) rest, g))"
  by (cases rest) (simp_all add: star_total)

lemma rmatch_token_group:
  "rmatch bol (Group (Plus Cls_S)) (acc, rest, g) Some =
     (if rest = [] \<or> is_space (hd rest) then None
      else Some (acc @ takeWhile (\<lambda>c. \<not> is_space c) rest, dropWhile (\<lambda>c. \<not> is_space c) rest,
                 Some (takeWhile (\<lambda>c. \<not> is_space c) rest)))"
  by (cases rest) (simp_all add: star_total case_prod_unfold)

lemma rmatch_spaces:
  assumes "\<And>acc' c cs. is_space c \<Longrightarrow> k (acc', c # cs, g) = None"
  shows "rmatch bol (Plus Cls_s) (acc, rest, g) k =
     (if rest = [] \<or> \<not> is_space (hd rest) then None
      else k (acc @ takeWhile is_space rest, dropWhile is_space rest, g))"
proof (cases rest)
  case Nil
  then show ?thesis by simp
next
  case (Cons c cs)
  have "star Cls_s (acc @ [c]) cs g k
      = k ((acc @ [c]) @ takeWhile (atom_ok Cls_s) cs, dropWhile (atom_ok Cls_s) cs, g)"
    by (rule star_fail_on_class) (simp add: assms)
  then show ?thesis using Cons by simp
qed

lemma rmatch_lits:
  "rmatch bol (lits l r) (acc, rest, g) k =
     (if take (length l) rest = l then rmatch bol r (acc @ l, drop (length l) rest, g) k else None)"
proof (induction l arbitrary: acc rest)
  case Nil
  then show ?case by simp
next
  case (Cons c l)
  then show ?case by (cases rest) auto
qed

lemma dash_not_space: "\<not> is_space CHR ''-''"
  by (simp add: is_space_def)




lemma rmatch_dash:
  assumes kfail: "\<And>acc' c cs. is_space c \<Longrightarrow> k (acc', c # cs, g) = None"
  shows "rmatch bol dash_re (acc, r2, g) k =
     (let w2 = takeWhile is_space (tl r2); r3 = dropWhile is_space (tl r2) in
      if r2 \<noteq> [] \<and> hd r2 = CHR ''-'' \<and> w2 \<noteq> [] then
        (case k (acc @ ''-'' @ w2, r3, g) of
           Some res \<Rightarrow> Some res
         | None \<Rightarrow> k (acc, r2, g))
      else k (acc, r2, g))"
proof (cases r2)
  case Nil
  then show ?thesis by (simp add: dash_re_def)
next
  case (Cons c cs)
  have sp: "rmatch bol (Plus Cls_s) (acc @ ''-'', cs, g) k =
     (if cs = [] \<or> \<not> is_space (hd cs) then None
      else k ((acc @ ''-'') @ takeWhile is_space cs, dropWhile is_space cs, g))"
    by (rule rmatch_spaces) (rule kfail)
  have tw: "takeWhile is_space cs = [] \<longleftrightarrow> cs = [] \<or> \<not> is_space (hd cs)"
    by (cases cs) auto
  show ?thesis
    using Cons sp tw by (auto simp: dash_re_def Let_def simp del: rmatch.simps(3) split: option.splits)
qed

lemma rmatch_header_tail:
  assumes kfail: "\<And>acc' c cs. is_space c \<Longrightarrow> k (acc', c # cs, g) = None"
  shows "rmatch bol (Plus Cls_s) (acc, r1, g) (\<lambda>st'. rmatch bol dash_re st' k) =
     (let w1 = takeWhile is_space r1; r2 = dropWhile is_space r1;
          w2 = takeWhile is_space (tl r2); r3 = dropWhile is_space (tl r2) in
      if w1 = [] then None
      else if r2 \<noteq> [] \<and> hd r2 = CHR ''-'' \<and> w2 \<noteq> [] then
        (case k (acc @ w1 @ ''-'' @ w2, r3, g) of
           Some res \<Rightarrow> Some res
         | None \<Rightarrow> k (acc @ w1, r2, g))
      else k (acc @ w1, r2, g))"
proof -
  note rd = rmatch_dash [where k = k and g = g, OF kfail]
  have dfail: "rmatch bol dash_re (acc', c # cs, g) k = None" if "is_space c" for acc' c cs
  proof -
    have "c \<noteq> CHR ''-''" using that dash_not_space by auto
    then show ?thesis using that by (simp add: rd kfail)
  qed
  have step: "rmatch bol (Plus Cls_s) (acc, r1, g) (\<lambda>st'. rmatch bol dash_re st' k) =
     (if r1 = [] \<or> \<not> is_space (hd r1) then None
      else rmatch bol dash_re (acc @ takeWhile is_space r1, dropWhile is_space r1, g) k)"
    by (rule rmatch_spaces) (rule dfail)
  have tw: "takeWhile is_space r1 = [] \<longleftrightarrow> r1 = [] \<or> \<not> is_space (hd r1)"
    by (cases r1) auto
  show ?thesis
    unfolding step by (auto simp: tw rd Let_def simp del: rmatch.simps)
qed


definition token :: "string \<Rightarrow> string" where
  "token s = takeWhile (\<lambda>c. \<not> is_space c) s"

definition after_token :: "string \<Rightarrow> string" where
  "after_token s = dropWhile (\<lambda>c. \<not> is_space c) s"

lemma match_extends:
  "match_here extends_re bol s =
     (if bol then
        (case header_split s of
           None \<Rightarrow> None
         | Some (h, r) \<Rightarrow> Some (h @ token r, after_token r, Some h))
      else None)"
proof -
  define K :: "mstate \<Rightarrow> mstate option"
    where "K = (\<lambda>(acc', rest', _). rmatch bol (Plus Cls_S) (acc', rest', Some acc') Some)"
  have Kval: "K (acc, rest, g) =
      (if rest = [] \<or> is_space (hd rest) then None
       else Some (acc @ token rest, after_token rest, Some acc))" for acc rest g
    by (simp add: K_def rmatch_token token_def after_token_def del: rmatch.simps)
  have kfail: "K (acc', c # cs, None) = None" if "is_space c" for acc' c cs
    using that by (simp add: Kval)
  have start: "match_here extends_re bol s =
      (if bol \<and> take 8 s = ''extends:''
       then rmatch bol (Plus Cls_s) (''extends:'', drop 8 s, None) (\<lambda>st'. rmatch bol dash_re st' K)
       else None)"
    by (simp add: match_here_def extends_re_def rmatch_lits K_def eval_nat_numeral del: rmatch.simps(3) lits.simps)
  have nsp: "dropWhile is_space t \<noteq> [] \<Longrightarrow> \<not> is_space (hd (dropWhile is_space t))" for t
    by (metis hd_dropWhile)
  have ht: "rmatch bol (Plus Cls_s) (''extends:'', drop 8 s, None) (\<lambda>st'. rmatch bol dash_re st' K) =
     (let w1 = takeWhile is_space (drop 8 s); r2 = dropWhile is_space (drop 8 s);
          w2 = takeWhile is_space (tl r2); r3 = dropWhile is_space (tl r2) in
      if w1 = [] then None
      else if r2 \<noteq> [] \<and> hd r2 = CHR ''-'' \<and> w2 \<noteq> [] then
        (case K (''extends:'' @ w1 @ ''-'' @ w2, r3, None) of
           Some res \<Rightarrow> Some res
         | None \<Rightarrow> K (''extends:'' @ w1, r2, None))
      else K (''extends:'' @ w1, r2, None))"
    by (rule rmatch_header_tail) (rule kfail)
  show ?thesis
    unfolding start ht
    by (auto simp: header_split_def Let_def Kval nsp dash_not_space simp del: rmatch.simps)
qed

lemma match_selected:
  "match_here selected_re bol s =
     (if bol then
        (case header_split s of
           None \<Rightarrow> None
         | Some (h, r) \<Rightarrow> Some (h @ token r, after_token r, Some (token r)))
      else None)"
proof -
  define K :: "mstate \<Rightarrow> mstate option"
    where "K = (\<lambda>st'. rmatch bol (Group (Plus Cls_S)) st' Some)"
  have Kval: "K (acc, rest, g) =
      (if rest = [] \<or> is_space (hd rest) then None
       else Some (acc @ token rest, after_token rest, Some (token rest)))" for acc rest g
    by (simp add: K_def rmatch_token_group token_def after_token_def del: rmatch.simps)
  have kfail: "K (acc', c # cs, None) = None" if "is_space c" for acc' c cs
    using that by (simp add: Kval)
  have start: "match_here selected_re bol s =
      (if bol \<and> take 8 s = ''extends:''
       then rmatch bol (Plus Cls_s) (''extends:'', drop 8 s, None) (\<lambda>st'. rmatch bol dash_re st' K)
       else None)"
    by (simp add: match_here_def selected_re_def rmatch_lits K_def eval_nat_numeral
          del: rmatch.simps(3,6) lits.simps)
  have nsp: "dropWhile is_space t \<noteq> [] \<Longrightarrow> \<not> is_space (hd (dropWhile is_space t))" for t
    by (metis hd_dropWhile)
  have ht: "rmatch bol (Plus Cls_s) (''extends:'', drop 8 s, None) (\<lambda>st'. rmatch bol dash_re st' K) =
     (let w1 = takeWhile is_space (drop 8 s); r2 = dropWhile is_space (drop 8 s);
          w2 = takeWhile is_space (tl r2); r3 = dropWhile is_space (tl r2) in
      if w1 = [] then None
      else if r2 \<noteq> [] \<and> hd r2 = CHR ''-'' \<and> w2 \<noteq> [] then
        (case K (''extends:'' @ w1 @ ''-'' @ w2, r3, None) of
           Some res \<Rightarrow> Some res
         | None \<Rightarrow> K (''extends:'' @ w1, r2, None))
      else K (''extends:'' @ w1, r2, None))"
    by (rule rmatch_header_tail) (rule kfail)
  show ?thesis
    unfolding start ht
    by (auto simp: header_split_def Let_def Kval nsp dash_not_space simp del: rmatch.simps)
qed

text \<open>
  The text of a directive up to its token: \<^verbatim>\<open>extends:\<close>, blanks, and possibly a dash and
  more blanks.
\<close>

definition directive :: "string \<Rightarrow> bool" where
  "directive h =
     (take 8 h = ''extends:'' \<and>
      (let w1 = takeWhile is_space (drop 8 h); d = dropWhile is_space (drop 8 h) in
       w1 \<noteq> [] \<and> (d = [] \<or> (hd d = CHR ''-'' \<and> tl d \<noteq> [] \<and> list_all is_space (tl d)))))"

lemma take8_append: "take 8 s = ''extends:'' \<Longrightarrow> s = ''extends:'' @ drop 8 s"
  by (metis append_take_drop_id)

lemma header_split_SomeD:
  assumes "header_split s = Some (h, r)"
  shows "s = h @ r" and "directive h" and "r \<noteq> []" and "\<not> is_space (hd r)"
proof -
  from assms have t8: "take 8 s = ''extends:''"
    by (auto simp: header_split_def split: if_splits)
  define r1 where "r1 = drop 8 s"
  define w1 where "w1 = takeWhile is_space r1"
  define r2 where "r2 = dropWhile is_space r1"
  define w2 where "w2 = takeWhile is_space (tl r2)"
  define r3 where "r3 = dropWhile is_space (tl r2)"
  have s: "s = ''extends:'' @ w1 @ r2"
    using take8_append [OF t8] by (simp add: r1_def w1_def r2_def)
  from assms t8 have ne: "w1 \<noteq> []" "r2 \<noteq> []"
    by (auto simp: header_split_def Let_def r1_def w1_def r2_def split: if_splits)
  have r2nsp: "\<not> is_space (hd r2)"
    using ne(2) unfolding r2_def by (metis hd_dropWhile)
  have w1sp: "list_all is_space w1"
    unfolding w1_def list_all_iff by (metis (full_types) set_takeWhileD)
  have w2sp: "list_all is_space w2"
    unfolding w2_def list_all_iff by (metis (full_types) set_takeWhileD)
  have tw1: "takeWhile is_space (w1 @ x) = w1 @ takeWhile is_space x"
            "dropWhile is_space (w1 @ x) = dropWhile is_space x" for x
    using w1sp by (simp_all add: list_all_iff)
  show "s = h @ r" and "directive h" and "r \<noteq> []" and "\<not> is_space (hd r)"
  proof -
    consider (dash) "hd r2 = CHR ''-''" "w2 \<noteq> []" "r3 \<noteq> []"
      | (plain) "\<not> (hd r2 = CHR ''-'' \<and> w2 \<noteq> [] \<and> r3 \<noteq> [])" by blast
    then have "s = h @ r \<and> directive h \<and> r \<noteq> [] \<and> \<not> is_space (hd r)"
    proof cases
      case dash
      with assms t8 ne have h: "h = ''extends:'' @ w1 @ ''-'' @ w2" and r: "r = r3"
        by (auto simp: header_split_def Let_def r1_def w1_def r2_def w2_def r3_def split: if_splits)
      have "r2 = CHR ''-'' # tl r2" using ne(2) dash(1) by (cases r2) auto
      moreover have "tl r2 = w2 @ r3" by (simp add: w2_def r3_def)
      ultimately have "s = h @ r" using s h r by simp
      moreover have "\<not> is_space (hd r3)"
        using dash(3) unfolding r3_def by (metis hd_dropWhile)
      moreover have "directive h"
        using ne(1) dash(2) w2sp w1sp
        by (simp add: directive_def h Let_def list_all_iff dash_not_space)
      ultimately show ?thesis using r dash(3) by simp
    next
      case plain
      with assms t8 ne have h: "h = ''extends:'' @ w1" and r: "r = r2"
        by (auto simp: header_split_def Let_def r1_def w1_def r2_def w2_def r3_def split: if_splits)
      have "takeWhile is_space w1 \<noteq> []"
        using ne(1) w1sp by (cases w1) auto
      moreover have "dropWhile is_space w1 = []"
        using w1sp by (simp add: list_all_iff)
      ultimately have "directive h"
        by (simp add: directive_def h Let_def)
      then show ?thesis using s h r ne(2) r2nsp by simp
    qed
    then show "s = h @ r" and "directive h" and "r \<noteq> []" and "\<not> is_space (hd r)" by simp_all
  qed
qed

lemma token_after_token [simp]: "token r @ after_token r = r"
  by (simp add: token_def after_token_def)

lemma token_nonempty: "r \<noteq> [] \<Longrightarrow> \<not> is_space (hd r) \<Longrightarrow> token r \<noteq> []"
  by (cases r) (auto simp: token_def)

lemma token_nonspace: "list_all (\<lambda>c. \<not> is_space c) (token r)"
  unfolding token_def list_all_iff by (metis (mono_tags, lifting) set_takeWhileD)

lemma search_SomeD:
  "search r bol s = Some (pre, st) \<Longrightarrow>
     \<exists>s'. s = pre @ s' \<and> match_here r (if pre = [] then bol else last pre = newline) s' = Some st"
proof (induction s arbitrary: bol pre)
  case Nil
  then show ?case by auto
next
  case (Cons c cs)
  show ?case
  proof (cases "match_here r bol (c # cs)")
    case (Some st')
    with Cons.prems show ?thesis by auto
  next
    case None
    with Cons.prems obtain pre' where pre: "pre = c # pre'"
      and sr: "search r (c = newline) cs = Some (pre', st)"
      by auto
    from Cons.IH [OF sr] obtain s' where "cs = pre' @ s'"
      and "match_here r (if pre' = [] then c = newline else last pre' = newline) s' = Some st"
      by blast
    then show ?thesis using pre by (cases pre') auto
  qed
qed

lemma search_extends_SomeD:
  assumes "search extends_re bol s = Some (pre, m, rest, g)"
  shows "\<exists>h r. s = pre @ h @ r \<and> header_split (h @ r) = Some (h, r) \<and> m = h @ token r
           \<and> rest = after_token r \<and> g = Some h \<and> (if pre = [] then bol else last pre = newline)"
proof -
  from search_SomeD [OF assms] obtain s' where s: "s = pre @ s'"
    and m: "match_here extends_re (if pre = [] then bol else last pre = newline) s' = Some (m, rest, g)"
    by blast
  from m obtain h r where b: "if pre = [] then bol else last pre = newline"
    and hs: "header_split s' = Some (h, r)"
    and "m = h @ token r" "rest = after_token r" "g = Some h"
    by (auto simp: match_extends split: if_splits option.splits)
  moreover have "s' = h @ r" using header_split_SomeD(1) [OF hs] .
  ultimately show ?thesis using s by auto
qed

lemma search_extends_shorter:
  assumes "search extends_re bol s = Some (pre, m, rest, g)"
  shows "length rest < length s"
proof -
  from search_extends_SomeD [OF assms] obtain h r where s: "s = pre @ h @ r"
    and hs: "header_split (h @ r) = Some (h, r)" and rest: "rest = after_token r"
    by blast
  have "directive h" using header_split_SomeD(2) [OF hs] .
  then have "h \<noteq> []" by (auto simp: directive_def)
  moreover have "length (after_token r) \<le> length r"
    by (simp add: after_token_def length_dropWhile_le)
  ultimately show ?thesis using s rest by (cases h) auto
qed

section \<open>\<open>re.sub\<close> with the pattern of the patcher\<close>

text \<open>
  \<open>subn t bol s\<close> is the loop of \<open>re.sub\<close> for \<open>extends_re\<close> and the parsed template
  \<open>t\<close>: the text before the first match is copied, the match is replaced by the
  expanded template, and the scan goes on behind the match. A match of this pattern is
  never empty, so the scan always advances.
\<close>

function subn :: "tpart list \<Rightarrow> bool \<Rightarrow> string \<Rightarrow> string" where
  "subn t bol s =
     (case search extends_re bol s of
        None \<Rightarrow> s
      | Some (pre, m, rest, g) \<Rightarrow>
          pre @ expand_template t m g @ subn t (last m = newline) rest)"
  by pat_completeness auto
termination
  by (relation "measure (\<lambda>(t, bol, s). length s)") (auto dest: search_extends_shorter)

declare subn.simps [simp del]

datatype error = IndexError | FileNotFoundError | Re_error

text \<open>
  \<open>re.sub(pattern, repl, string, flags=re.MULTILINE)\<close> for the pattern \<open>extends_re\<close>,
  which has one group: the template is parsed first, and an error there is raised
  whatever the text is.
\<close>

definition re_sub :: "string \<Rightarrow> string \<Rightarrow> error + string" where
  "re_sub repl s =
     (case parse_template 1 repl of
        None \<Rightarrow> Inl Re_error
      | Some t \<Rightarrow> Inr (subn t True s))"

section \<open>The host: syntaxes, resources and files\<close>

text \<open>
  \<open>sublime.Syntax\<close>: a syntax definition known to the editor. Two of them are equal
  (\<open>==\<close>) when their paths are.
\<close>

record Syntax =
  path :: string
  name :: string
  hidden :: bool
  scope :: string

definition syntax_eq :: "Syntax \<Rightarrow> Syntax option \<Rightarrow> bool" where
  "syntax_eq a b = (case b of None \<Rightarrow> False | Some b' \<Rightarrow> path a = path b')"

text \<open>
  \<open>sublime.ListInputItem\<close> with the three fields the plugin sets, and the two kinds it
  uses. The check mark of the selected kind is written as its UTF-8 bytes.
\<close>

datatype kind_id = KIND_ID_AMBIGUOUS

type_synonym kind = "kind_id \<times> string \<times> string"

definition KIND_AMBIGUOUS :: kind where
  "KIND_AMBIGUOUS = (KIND_ID_AMBIGUOUS, [], [])"

definition selected_kind :: kind where
  "selected_kind = (KIND_ID_AMBIGUOUS, [CHR 0xE2, CHR 0x9C, CHR 0x93], ''Selected'')"

record ListInputItem =
  item_text :: string
  item_value :: string
  item_kind :: kind

text \<open>\<open>s.split(sep)\<close> for a separator of one character: one piece more than separators.\<close>

fun split_on :: "char \<Rightarrow> string \<Rightarrow> string list" where
  "split_on sep [] = [[]]"
| "split_on sep (c # cs) =
     (if c = sep then [] # split_on sep cs
      else (case split_on sep cs of
              [] \<Rightarrow> [[c]]
            | x # xs \<Rightarrow> (c # x) # xs))"

definition startswith :: "string \<Rightarrow> string \<Rightarrow> bool" where
  "startswith s p = (take (length p) s = p)"

text \<open>
  \<open>pathlib\<close> paths in the POSIX flavour: a root (empty for a relative path) and the
  components, without empty or \<^verbatim>\<open>.\<close> components. \<open>joinpath p s\<close> is \<^verbatim>\<open>p / s\<close>: an
  absolute \<open>s\<close> replaces \<open>p\<close>.
\<close>

type_synonym pure_path = "string \<times> string list"

definition path_root :: "string \<Rightarrow> string" where
  "path_root s =
     (if take 2 s = ''//'' \<and> take 3 s \<noteq> ''///'' then ''//''
      else if take 1 s = ''/'' then ''/''
      else [])"

definition Path :: "string \<Rightarrow> pure_path" where
  "Path s = (path_root s, filter (\<lambda>p. p \<noteq> [] \<and> p \<noteq> ''.'') (split_on CHR ''/'' s))"

definition parent :: "pure_path \<Rightarrow> pure_path" where
  "parent p = (fst p, butlast (snd p))"

definition joinpath :: "pure_path \<Rightarrow> string \<Rightarrow> pure_path" where
  "joinpath p s =
     (let q = Path s in if fst q \<noteq> [] then q else (fst p, snd p @ snd q))"

text \<open>
  What the plugin sees of the editor and of the disk: the registered syntaxes
  (\<open>sublime.list_syntaxes()\<close>), the resolution of a resource path to a syntax
  (\<open>sublime.syntax_from_path\<close>), the directory of loose packages
  (\<open>sublime.packages_path()\<close>), the resources inside package archives, the text files on
  disk, and the console that \<open>print\<close> writes to. Files hold text: writing with
  \<^verbatim>\<open>encoding="utf-8", newline="\n"\<close> stores the characters as they are, no line ending is
  translated. Opening a file for writing is taken to succeed.
\<close>

record world =
  list_syntaxes :: "Syntax list"
  syntax_from_path :: "string \<Rightarrow> Syntax option"
  packages_path :: string
  packaged :: "string \<Rightarrow> string option"
  files :: "pure_path \<Rightarrow> string option"
  console :: "string list"

definition physical_path :: "world \<Rightarrow> string \<Rightarrow> pure_path" where
  "physical_path w p = joinpath (parent (Path (packages_path w))) p"

text \<open>
  \<open>sublime.load_resource\<close>: a loose file under the packages directory overrides the
  resource of the same name inside a package archive; \<open>None\<close> is the \<open>FileNotFoundError\<close>
  of a resource that exists in neither place.
\<close>

definition load_resource :: "world \<Rightarrow> string \<Rightarrow> string option" where
  "load_resource w p =
     (case files w (physical_path w p) of
        Some t \<Rightarrow> Some t
      | None \<Rightarrow> packaged w p)"

section \<open>\<open>DialectFileInputHandler.list_items\<close>\<close>

text \<open>The loop over \<open>sublime.list_syntaxes()\<close>, with its three \<open>continue\<close> tests in order.\<close>

fun items_loop :: "Syntax \<Rightarrow> string \<Rightarrow> Syntax option \<Rightarrow> Syntax list \<Rightarrow> ListInputItem list" where
  "items_loop default_syntax default_scope selected_syntax [] = []"
| "items_loop default_syntax default_scope selected_syntax (syn # rest) =
     (if hidden syn then items_loop default_syntax default_scope selected_syntax rest
      else if syntax_eq syn (Some default_syntax)
        then items_loop default_syntax default_scope selected_syntax rest
      else if \<not> startswith (scope syn) default_scope
        then items_loop default_syntax default_scope selected_syntax rest
      else
        \<lparr>item_text = name syn, item_value = path syn,
         item_kind = (if syntax_eq syn selected_syntax then selected_kind else KIND_AMBIGUOUS)\<rparr>
        # items_loop default_syntax default_scope selected_syntax rest)"

text \<open>
  \<open>default_scopes[1]\<close> raises \<open>IndexError\<close> when the scope has no dot; the resource is
  loaded after that. \<open>re.search\<close> gives the first match, whose group 1 is the token.
\<close>

definition list_items :: "world \<Rightarrow> Syntax \<Rightarrow> error + ListInputItem list" where
  "list_items w default_syntax =
     (let default_scopes = split_on CHR ''.'' (scope default_syntax) in
      if length default_scopes < 2 then Inl IndexError
      else
        (let default_scope = default_scopes ! 0 @ ''.'' @ default_scopes ! 1 in
         case load_resource w (path default_syntax) of
           None \<Rightarrow> Inl FileNotFoundError
         | Some content \<Rightarrow>
             (let selected_syntax =
                (case search selected_re True content of
                   Some (pre, m, rest, Some tok) \<Rightarrow> syntax_from_path w tok
                 | _ \<Rightarrow> None)
              in Inr (items_loop default_syntax default_scope selected_syntax (list_syntaxes w)))))"

section \<open>\<open>SetDefaultSyntaxDialect.run\<close>\<close>

definition no_target_message :: "string \<Rightarrow> string" where
  "no_target_message syntax_file =
     ''Error: '' @ [dquote] @ syntax_file @ [dquote] @ '' is no valid target syntax!''"

definition no_syntax_message :: "string \<Rightarrow> string" where
  "no_syntax_message dialect_file =
     ''Error: '' @ [dquote] @ dialect_file @ [dquote] @ '' is no valid syntax!''"

definition print :: "string \<Rightarrow> world \<Rightarrow> world" where
  "print line w = w\<lparr>console := console w @ [line]\<rparr>"

definition write_file :: "pure_path \<Rightarrow> string \<Rightarrow> world \<Rightarrow> world" where
  "write_file p content w = w\<lparr>files := (files w)(p \<mapsto> content)\<rparr>"

text \<open>
  The command: \<open>Inl\<close> is an exception that leaves the command, \<open>Inr\<close> the world after a
  normal return. The replacement string is \<^verbatim>\<open>rf"\1{dialect_syntax.path}"\<close>: a backslash,
  the digit 1 and the path of the dialect.
\<close>

definition run :: "world \<Rightarrow> string \<Rightarrow> string \<Rightarrow> error + world" where
  "run w syntax_file dialect_file =
     (case syntax_from_path w syntax_file of
        None \<Rightarrow> Inr (print (no_target_message syntax_file) w)
      | Some default_syntax \<Rightarrow>
          (case syntax_from_path w dialect_file of
             None \<Rightarrow> Inr (print (no_syntax_message dialect_file) w)
           | Some dialect_syntax \<Rightarrow>
               (case load_resource w (path default_syntax) of
                  None \<Rightarrow> Inl FileNotFoundError
                | Some old_content \<Rightarrow>
                    (case re_sub (backslash # CHR ''1'' # path dialect_syntax) old_content of
                       Inl e \<Rightarrow> Inl e
                     | Inr new_content \<Rightarrow>
                         if old_content = new_content then Inr w
                         else Inr (write_file (physical_path w (path default_syntax)) new_content w)))))"

section \<open>The frame of a patch\<close>

text \<open>
  The editor names every resource by a path that starts with \<^verbatim>\<open>Packages/\<close>; the path of
  a \<open>sublime.Syntax\<close> is such a path.
\<close>

definition resource_path :: "string \<Rightarrow> bool" where
  "resource_path p = startswith p ''Packages/''"


lemma parse_template_group1:
  assumes "p = [] \<or> \<not> is_digit (hd p)"
  shows "parse_template 1 (backslash # CHR ''1'' # p) =
           map_option ((#) (T_group 1)) (parse_template 1 p)"
proof -
  have d1: "is_digit CHR ''1''" "digit_val CHR ''1'' = 1"
    by (simp_all add: is_digit_def digit_val_def)
  show ?thesis
    using assms by (cases p) (simp_all add: d1 addgroup_def)
qed

lemma resource_path_no_digit: "resource_path p \<Longrightarrow> p = [] \<or> \<not> is_digit (hd p)"
  by (cases p) (auto simp: resource_path_def startswith_def is_digit_def)

lemma after_token_starts_blank: "after_token r = [] \<or> is_space (hd (after_token r))"
  unfolding after_token_def using hd_dropWhile [of "\<lambda>c. \<not> is_space c" r] by blast

lemma newline_is_space: "is_space newline"
  by (simp add: is_space_def newline_def)

lemma last_token_not_newline:
  assumes "token r \<noteq> []"
  shows "last (h @ token r) \<noteq> newline"
proof -
  have "last (token r) \<in> set (token r)" using assms by simp
  then have "\<not> is_space (last (token r))"
    using token_nonspace [of r] by (simp add: list_all_iff)
  then show ?thesis using assms newline_is_space by auto
qed


section \<open>An example installation\<close>

text \<open>
  The example of the command's documentation: the umbrella \<^verbatim>\<open>SQL.sublime-syntax\<close> with scope
  \<open>source.sql\<close>, extending the MySQL dialect, next to a PostgreSQL dialect and a Python
  syntax. The umbrella lives in a package archive, with the given text.
\<close>

definition sql_syntax :: Syntax where
  "sql_syntax = \<lparr>path = ''Packages/SQL/SQL.sublime-syntax'', name = ''SQL'',
     hidden = False, scope = ''source.sql''\<rparr>"

definition mysql_syntax :: Syntax where
  "mysql_syntax = \<lparr>path = ''Packages/SQL/MySQL.sublime-syntax'', name = ''MySQL'',
     hidden = False, scope = ''source.sql.mysql''\<rparr>"

definition postgresql_syntax :: Syntax where
  "postgresql_syntax = \<lparr>path = ''Packages/SQL/PostgreSQL.sublime-syntax'', name = ''PostgreSQL'',
     hidden = False, scope = ''source.sql.postgresql''\<rparr>"

definition python_syntax :: Syntax where
  "python_syntax = \<lparr>path = ''Packages/Python/Python.sublime-syntax'', name = ''Python'',
     hidden = False, scope = ''source.python''\<rparr>"

text \<open>A dialect in a package whose name has a blank, and one whose file name has a backslash.\<close>

definition tsql_syntax :: Syntax where
  "tsql_syntax = \<lparr>path = ''Packages/SQL Dialects/TSQL.sublime-syntax'', name = ''T-SQL'',
     hidden = False, scope = ''source.sql.tsql''\<rparr>"

definition test_syntax :: Syntax where
  "test_syntax = \<lparr>path = ''Packages/User/sql'' @ [backslash] @ ''test.sublime-syntax'',
     name = ''SQL (test)'', hidden = False, scope = ''source.sql.test''\<rparr>"

text \<open>A hidden syntax of the same family.\<close>

definition basic_syntax :: Syntax where
  "basic_syntax = \<lparr>path = ''Packages/SQL/SQL (basic).sublime-syntax'', name = ''SQL (basic)'',
     hidden = True, scope = ''source.sql.basic''\<rparr>"

definition sql_text :: string where
  "sql_text = ''name: SQL\<newline>scope: source.sql\<newline>\<newline>extends: Packages/SQL/MySQL.sublime-syntax\<newline>\<newline>file_extensions:\<newline>  - sql\<newline>''"

definition sql_text_postgresql :: string where
  "sql_text_postgresql = ''name: SQL\<newline>scope: source.sql\<newline>\<newline>extends: Packages/SQL/PostgreSQL.sublime-syntax\<newline>\<newline>file_extensions:\<newline>  - sql\<newline>''"

definition sql_registry :: "Syntax list" where
  "sql_registry =
     [sql_syntax, mysql_syntax, basic_syntax, postgresql_syntax, python_syntax, tsql_syntax,
      test_syntax]"

definition sql_world :: "string \<Rightarrow> world" where
  "sql_world content = \<lparr>list_syntaxes = sql_registry,
     syntax_from_path = (\<lambda>p. find (\<lambda>s. path s = p) sql_registry),
     packages_path = ''/home/user/.config/sublime-text/Packages'',
     packaged = (\<lambda>p. if p = ''Packages/SQL/SQL.sublime-syntax'' then Some content else None),
     files = Map.empty,
     console = []\<rparr>"

text \<open>
  More texts of the umbrella: one that extends the umbrella itself, one whose only
  \<^verbatim>\<open>extends:\<close> is indented, and the texts that patches leave behind.
\<close>

definition self_text :: string where
  "self_text = ''name: SQL\<newline>extends: Packages/SQL/SQL.sublime-syntax\<newline>''"


definition sql_text_tsql :: string where
  "sql_text_tsql = ''name: SQL\<newline>scope: source.sql\<newline>\<newline>extends: Packages/SQL Dialects/TSQL.sublime-syntax\<newline>\<newline>file_extensions:\<newline>  - sql\<newline>''"

definition sql_text_tsql_twice :: string where
  "sql_text_tsql_twice = ''name: SQL\<newline>scope: source.sql\<newline>\<newline>extends: Packages/SQL Dialects/TSQL.sublime-syntax Dialects/TSQL.sublime-syntax\<newline>\<newline>file_extensions:\<newline>  - sql\<newline>''"

definition sql_text_mysql_residue :: string where
  "sql_text_mysql_residue = ''name: SQL\<newline>scope: source.sql\<newline>\<newline>extends: Packages/SQL/MySQL.sublime-syntax Dialects/TSQL.sublime-syntax\<newline>\<newline>file_extensions:\<newline>  - sql\<newline>''"

definition sql_text_tab :: string where
  "sql_text_tab = ''name: SQL\<newline>scope: source.sql\<newline>\<newline>extends: Packages/User/sql'' @ [CHR 0x09] @ ''est.sublime-syntax\<newline>\<newline>file_extensions:\<newline>  - sql\<newline>''"

text \<open>
  Running the command again in the world a run has left, and reading the umbrella's text
  there.
\<close>

definition run_then :: "error + world \<Rightarrow> string \<Rightarrow> string \<Rightarrow> error + world" where
  "run_then r syntax_file dialect_file =
     (case r of Inl e \<Rightarrow> Inl e | Inr w \<Rightarrow> run w syntax_file dialect_file)"

definition content_after :: "error + world \<Rightarrow> string \<Rightarrow> string option" where
  "content_after r p = (case r of Inl e \<Rightarrow> None | Inr w \<Rightarrow> load_resource w p)"

section \<open>The candidates of the enumerator\<close>

text \<open>
  The filter scope is made of the first two segments of the umbrella's scope. A candidate
  is not hidden, has another path than the umbrella, and its scope starts with the filter
  scope.
\<close>

definition candidate :: "Syntax \<Rightarrow> string \<Rightarrow> Syntax \<Rightarrow> bool" where
  "candidate u default_scope s =
     (\<not> hidden s \<and> path s \<noteq> path u \<and> startswith (scope s) default_scope)"

definition filter_scope :: "Syntax \<Rightarrow> string" where
  "filter_scope u =
     (let segs = split_on CHR ''.'' (scope u) in segs ! 0 @ ''.'' @ segs ! 1)"

lemma items_loop_filter:
  "items_loop u ds sel xs =
     map (\<lambda>s. \<lparr>item_text = name s, item_value = path s,
                item_kind = (if syntax_eq s sel then selected_kind else KIND_AMBIGUOUS)\<rparr>)
         (filter (candidate u ds) xs)"
  by (induction xs) (auto simp: candidate_def syntax_eq_def)

lemma list_items_Inr:
  assumes "2 \<le> length (split_on CHR ''.'' (scope u))"
    and "load_resource w (path u) = Some content"
  shows "\<exists>sel. list_items w u = Inr (items_loop u (filter_scope u) sel (list_syntaxes w))
           \<and> sel = (case search selected_re True content of
                      Some (pre, m, rest, Some tok) \<Rightarrow> syntax_from_path w tok
                    | _ \<Rightarrow> None)"
  using assms by (simp add: list_items_def filter_scope_def Let_def)

text \<open>
  Claim C3. For an umbrella whose scope has at least two segments (and whose text can be
  loaded) the enumerator returns a list of items; the items are, in order, the paths and
  names of registered syntaxes, none of which is the umbrella or has its path, none of
  which is hidden, and each of which has a scope that starts, as a string, with the first
  two segments of the umbrella's scope joined by a dot.
\<close>

theorem candidates_filtered:
  assumes "2 \<le> length (split_on CHR ''.'' (scope u))"
    and "load_resource w (path u) = Some content"
  shows "\<exists>items cs. list_items w u = Inr items
           \<and> map item_value items = map path cs \<and> map item_text items = map name cs
           \<and> set cs \<subseteq> set (list_syntaxes w)
           \<and> (\<forall>c \<in> set cs. c \<noteq> u \<and> path c \<noteq> path u \<and> \<not> hidden c
                  \<and> startswith (scope c) (filter_scope u))"
proof -
  from list_items_Inr [OF assms] obtain sel
    where li: "list_items w u = Inr (items_loop u (filter_scope u) sel (list_syntaxes w))"
    by blast
  let ?cs = "filter (candidate u (filter_scope u)) (list_syntaxes w)"
  have "map item_value (items_loop u (filter_scope u) sel (list_syntaxes w)) = map path ?cs"
    and "map item_text (items_loop u (filter_scope u) sel (list_syntaxes w)) = map name ?cs"
    by (simp_all add: items_loop_filter comp_def)
  moreover have "\<forall>c \<in> set ?cs. c \<noteq> u \<and> path c \<noteq> path u \<and> \<not> hidden c
                  \<and> startswith (scope c) (filter_scope u)"
    by (auto simp: candidate_def)
  moreover have "set ?cs \<subseteq> set (list_syntaxes w)" by auto
  ultimately show ?thesis using li by blast
qed

theorem candidates_filtered_witness:
  "2 \<le> length (split_on CHR ''.'' (scope sql_syntax))
   \<and> load_resource (sql_world sql_text) (path sql_syntax) = Some sql_text
   \<and> (\<exists>items cs. list_items (sql_world sql_text) sql_syntax = Inr items
           \<and> map item_value items = map path cs \<and> map item_text items = map name cs
           \<and> set cs \<subseteq> set (list_syntaxes (sql_world sql_text))
           \<and> list_all (\<lambda>c. c \<noteq> sql_syntax \<and> path c \<noteq> path sql_syntax \<and> \<not> hidden c
                  \<and> startswith (scope c) (filter_scope sql_syntax)) cs)
   \<and> map_sum id (map item_text) (list_items (sql_world sql_text) sql_syntax)
       = Inr [''MySQL'', ''PostgreSQL'', ''T-SQL'', ''SQL (test)'']"
proof -
  have h1: "2 \<le> length (split_on CHR ''.'' (scope sql_syntax))" by code_simp
  have h2: "load_resource (sql_world sql_text) (path sql_syntax) = Some sql_text" by code_simp
  have v: "map_sum id (map item_text) (list_items (sql_world sql_text) sql_syntax)
       = Inr [''MySQL'', ''PostgreSQL'', ''T-SQL'', ''SQL (test)'']"
    by code_simp
  show ?thesis
    using h1 h2 v candidates_filtered [OF h1 h2] by (simp add: list_all_iff)
qed

lemma filter_same_key:
  "distinct (map f xs) \<Longrightarrow> d \<in> set xs \<Longrightarrow> filter (\<lambda>s. f s = f d) xs = [d]"
proof (induction xs)
  case Nil
  then show ?case by simp
next
  case (Cons x xs)
  show ?case
  proof (cases "x = d")
    case True
    with Cons.prems have "\<forall>s \<in> set xs. f s \<noteq> f d" by (auto simp: image_iff)
    then have "filter (\<lambda>s. f s = f d) xs = []" by (simp add: filter_empty_conv)
    with True show ?thesis by simp
  next
    case False
    with Cons.prems have "d \<in> set xs" "f x \<noteq> f d" by (auto simp: image_iff)
    with Cons show ?thesis by simp
  qed
qed

lemma filter_swap: "filter P (filter Q xs) = filter Q (filter P xs)"
  by (induction xs) auto

lemma selected_kind_neq: "selected_kind \<noteq> KIND_AMBIGUOUS"
  by (simp add: selected_kind_def KIND_AMBIGUOUS_def)

lemma selected_items:
  "filter (\<lambda>i. item_kind i = selected_kind)
     (map (\<lambda>s. \<lparr>item_text = name s, item_value = path s,
                item_kind = (if path s = path d then selected_kind else KIND_AMBIGUOUS)\<rparr>) xs)
   = map (\<lambda>s. \<lparr>item_text = name s, item_value = path s,
                item_kind = (if path s = path d then selected_kind else KIND_AMBIGUOUS)\<rparr>)
       (filter (\<lambda>s. path s = path d) xs)"
  using selected_kind_neq by (induction xs) auto

text \<open>
  Claim C2, amended. Let the first directive of the umbrella's text name a path that
  resolves to a syntax \<open>d\<close> which is registered, not hidden, has a scope that starts with
  the filter scope, and is not the umbrella itself; let no two registered syntaxes have
  the same path. Then the enumerator returns a list in which exactly one item carries the
  selected kind, and this item is the one of \<open>d\<close>.
\<close>

theorem selected_marks_named_dialect:
  assumes seg: "2 \<le> length (split_on CHR ''.'' (scope u))"
    and load: "load_resource w (path u) = Some content"
    and named: "search selected_re True content = Some (pre, m, rest, Some tok)"
    and res: "syntax_from_path w tok = Some d"
    and reg: "d \<in> set (list_syntaxes w)"
    and vis: "\<not> hidden d"
    and sc: "startswith (scope d) (filter_scope u)"
    and other: "path d \<noteq> path u"
    and uniq: "distinct (map path (list_syntaxes w))"
  shows "\<exists>items. list_items w u = Inr items
           \<and> filter (\<lambda>i. item_kind i = selected_kind) items
               = [\<lparr>item_text = name d, item_value = path d, item_kind = selected_kind\<rparr>]"
proof -
  let ?cs = "filter (candidate u (filter_scope u)) (list_syntaxes w)"
  let ?mk = "\<lambda>s. \<lparr>item_text = name s, item_value = path s,
                item_kind = (if syntax_eq s (Some d) then selected_kind else KIND_AMBIGUOUS)\<rparr>"
  from list_items_Inr [OF seg load] named res
  have li: "list_items w u = Inr (map ?mk ?cs)"
    by (simp add: items_loop_filter)
  have cand: "candidate u (filter_scope u) d"
    using vis sc other by (simp add: candidate_def)
  have "filter (\<lambda>s. path s = path d) ?cs
      = filter (candidate u (filter_scope u)) (filter (\<lambda>s. path s = path d) (list_syntaxes w))"
    by (rule filter_swap)
  also have "\<dots> = [d]"
    using filter_same_key [OF uniq reg] cand by simp
  finally have one: "filter (\<lambda>s. path s = path d) ?cs = [d]" .
  have "filter (\<lambda>i. item_kind i = selected_kind) (map ?mk ?cs)
      = map ?mk (filter (\<lambda>s. path s = path d) ?cs)"
    unfolding syntax_eq_def option.case by (rule selected_items)
  then have "filter (\<lambda>i. item_kind i = selected_kind) (map ?mk ?cs) = [?mk d]"
    by (simp only: one list.map)
  then show ?thesis using li by (simp add: syntax_eq_def)
qed

theorem selected_marks_named_dialect_witness:
  "2 \<le> length (split_on CHR ''.'' (scope sql_syntax))
   \<and> load_resource (sql_world sql_text) (path sql_syntax) = Some sql_text
   \<and> search selected_re True sql_text =
         Some (''name: SQL\<newline>scope: source.sql\<newline>\<newline>'',
               ''extends: Packages/SQL/MySQL.sublime-syntax'',
               ''\<newline>\<newline>file_extensions:\<newline>  - sql\<newline>'',
               Some ''Packages/SQL/MySQL.sublime-syntax'')
   \<and> syntax_from_path (sql_world sql_text) ''Packages/SQL/MySQL.sublime-syntax'' = Some mysql_syntax
   \<and> mysql_syntax \<in> set (list_syntaxes (sql_world sql_text))
   \<and> \<not> hidden mysql_syntax
   \<and> startswith (scope mysql_syntax) (filter_scope sql_syntax)
   \<and> path mysql_syntax \<noteq> path sql_syntax
   \<and> distinct (map path (list_syntaxes (sql_world sql_text)))
   \<and> (\<exists>items. list_items (sql_world sql_text) sql_syntax = Inr items
           \<and> filter (\<lambda>i. item_kind i = selected_kind) items
               = [\<lparr>item_text = ''MySQL'', item_value = ''Packages/SQL/MySQL.sublime-syntax'',
                   item_kind = selected_kind\<rparr>])"
proof -
  have h1: "2 \<le> length (split_on CHR ''.'' (scope sql_syntax))" by code_simp
  have h2: "load_resource (sql_world sql_text) (path sql_syntax) = Some sql_text" by code_simp
  have h3: "search selected_re True sql_text =
         Some (''name: SQL\<newline>scope: source.sql\<newline>\<newline>'',
               ''extends: Packages/SQL/MySQL.sublime-syntax'',
               ''\<newline>\<newline>file_extensions:\<newline>  - sql\<newline>'',
               Some ''Packages/SQL/MySQL.sublime-syntax'')" by code_simp
  have h4: "syntax_from_path (sql_world sql_text) ''Packages/SQL/MySQL.sublime-syntax'' = Some mysql_syntax"
    by code_simp
  have h5: "mysql_syntax \<in> set (list_syntaxes (sql_world sql_text))"
    by (simp add: sql_world_def sql_registry_def)
  have h6: "\<not> hidden mysql_syntax" by code_simp
  have h7: "startswith (scope mysql_syntax) (filter_scope sql_syntax)" by code_simp
  have h8: "path mysql_syntax \<noteq> path sql_syntax" by code_simp
  have h9: "distinct (map path (list_syntaxes (sql_world sql_text)))" by code_simp
  have n: "name mysql_syntax = ''MySQL''" "path mysql_syntax = ''Packages/SQL/MySQL.sublime-syntax''"
    by (simp_all add: mysql_syntax_def)
  show ?thesis
    using h1 h2 h3 h4 h5 h6 h7 h8 h9
      selected_marks_named_dialect [OF h1 h2 h3 h4 h5 h6 h7 h8 h9]
    by (simp add: n)
qed

text \<open>
  Without the condition that the named dialect is not the umbrella, claim C2 fails where
  the umbrella extends itself: every other condition holds, and no item is selected, the
  umbrella being no candidate.
\<close>

theorem selected_self_counterexample:
  "2 \<le> length (split_on CHR ''.'' (scope sql_syntax))
   \<and> load_resource (sql_world self_text) (path sql_syntax) = Some self_text
   \<and> search selected_re True self_text =
         Some (''name: SQL\<newline>'', ''extends: Packages/SQL/SQL.sublime-syntax'', ''\<newline>'',
               Some ''Packages/SQL/SQL.sublime-syntax'')
   \<and> syntax_from_path (sql_world self_text) ''Packages/SQL/SQL.sublime-syntax'' = Some sql_syntax
   \<and> sql_syntax \<in> set (list_syntaxes (sql_world self_text))
   \<and> \<not> hidden sql_syntax
   \<and> startswith (scope sql_syntax) (filter_scope sql_syntax)
   \<and> distinct (map path (list_syntaxes (sql_world self_text)))
   \<and> (case list_items (sql_world self_text) sql_syntax of
         Inl e \<Rightarrow> False
       | Inr items \<Rightarrow> filter (\<lambda>i. item_kind i = selected_kind) items = [] \<and> length items = 4)"
  by code_simp

text \<open>A scope has fewer than two segments just when it has no dot.\<close>

lemma split_on_length: "length (split_on sep s) = Suc (length (filter (\<lambda>c. c = sep) s))"
  by (induction s) (auto split: list.splits)

lemma one_segment_no_dot: "length (split_on sep s) < 2 \<longleftrightarrow> sep \<notin> set s"
  by (auto simp: split_on_length filter_empty_conv)

text \<open>
  Claim C9. When the scope of the umbrella has fewer than two segments, the enumerator
  fails at once with \<open>IndexError\<close>, before it loads or filters anything: it returns no
  list of candidates at all.
\<close>

theorem short_scope_fails:
  "length (split_on CHR ''.'' (scope u)) < 2 \<Longrightarrow> list_items w u = Inl IndexError"
  by (simp add: list_items_def)

theorem short_scope_fails_witness:
  "length (split_on CHR ''.'' (scope (sql_syntax\<lparr>scope := ''source''\<rparr>))) < 2
   \<and> list_items (sql_world sql_text) (sql_syntax\<lparr>scope := ''source''\<rparr>) = Inl IndexError"
proof -
  have h: "length (split_on CHR ''.'' (scope (sql_syntax\<lparr>scope := ''source''\<rparr>))) < 2"
    by code_simp
  show ?thesis using h short_scope_fails [OF h] by simp
qed

section \<open>The patcher\<close>

text \<open>
  Claim C6. When the umbrella path does not resolve, the command prints the message
  that names this path and returns; when the umbrella path resolves and the dialect path
  does not, it prints the message that names the dialect path and returns. In both cases
  the world is the one before but for the printed line: no file is written.
\<close>

theorem invalid_path_aborts:
  "(syntax_from_path w syntax_file = None \<longrightarrow>
      run w syntax_file dialect_file =
        Inr (w\<lparr>console := console w @
          [''Error: '' @ [dquote] @ syntax_file @ [dquote] @ '' is no valid target syntax!'']\<rparr>))
   \<and> (syntax_from_path w syntax_file \<noteq> None \<and> syntax_from_path w dialect_file = None \<longrightarrow>
      run w syntax_file dialect_file =
        Inr (w\<lparr>console := console w @
          [''Error: '' @ [dquote] @ dialect_file @ [dquote] @ '' is no valid syntax!'']\<rparr>))"
  by (auto simp: run_def print_def no_target_message_def no_syntax_message_def)

theorem invalid_path_aborts_witness:
  "syntax_from_path (sql_world sql_text) ''BadPath'' = None
   \<and> (case run (sql_world sql_text) ''BadPath'' ''Packages/SQL/MySQL.sublime-syntax'' of
        Inl e \<Rightarrow> False
      | Inr w' \<Rightarrow> files w' = files (sql_world sql_text)
           \<and> console w' = [''Error: '' @ [dquote] @ ''BadPath'' @ [dquote] @ '' is no valid target syntax!''])
   \<and> syntax_from_path (sql_world sql_text) ''Packages/SQL/SQL.sublime-syntax'' = Some sql_syntax
   \<and> (case run (sql_world sql_text) ''Packages/SQL/SQL.sublime-syntax'' ''BadPath'' of
        Inl e \<Rightarrow> False
      | Inr w' \<Rightarrow> files w' = files (sql_world sql_text)
           \<and> console w' = [''Error: '' @ [dquote] @ ''BadPath'' @ [dquote] @ '' is no valid syntax!''])"
proof -
  have h1: "syntax_from_path (sql_world sql_text) ''BadPath'' = None" by code_simp
  have h2: "syntax_from_path (sql_world sql_text) ''Packages/SQL/SQL.sublime-syntax'' = Some sql_syntax"
    by code_simp
  have c: "console (sql_world sql_text) = []" by (simp add: sql_world_def)
  show ?thesis
    using h1 h2 c
      invalid_path_aborts [of "sql_world sql_text" "''BadPath''" "''Packages/SQL/MySQL.sublime-syntax''"]
      invalid_path_aborts [of "sql_world sql_text" "''Packages/SQL/SQL.sublime-syntax''" "''BadPath''"]
    by simp
qed







section \<open>The patcher on paths that the pattern can hold\<close>

lemma parse_template_plain:
  "backslash \<notin> set p \<Longrightarrow> parse_template n p = Some (map T_lit p)"
  by (induction p) auto

lemma expand_template_plain: "expand_template (map T_lit p) m g = p"
  by (induction p) auto

text \<open>
  A plain path is a resource path without a backslash: as a replacement template it
  stands for itself.
\<close>

definition plain_path :: "string \<Rightarrow> bool" where
  "plain_path p = (resource_path p \<and> backslash \<notin> set p)"

lemma plain_path_template:
  assumes "plain_path p"
  shows "parse_template 1 (backslash # CHR ''1'' # p) = Some (T_group 1 # map T_lit p)"
proof -
  from assms have "p = [] \<or> \<not> is_digit (hd p)" and "backslash \<notin> set p"
    by (auto simp: plain_path_def dest: resource_path_no_digit)
  then show ?thesis
    using parse_template_group1 [of p] parse_template_plain [of p 1]
    by (simp del: parse_template.simps)
qed

lemma header_split_None_iff:
  "header_split x = None \<longleftrightarrow>
     \<not> (take 8 x = ''extends:'' \<and> takeWhile is_space (drop 8 x) \<noteq> []
        \<and> dropWhile is_space (drop 8 x) \<noteq> [])"
  by (auto simp: header_split_def Let_def)

lemma directive_cases:
  assumes "directive h"
  obtains w1 where "h = ''extends:'' @ w1" "w1 \<noteq> []" "list_all is_space w1"
  | w1 w2 where "h = ''extends:'' @ w1 @ CHR ''-'' # w2" "w1 \<noteq> []" "w2 \<noteq> []"
      "list_all is_space w1" "list_all is_space w2"
proof -
  define w1 where "w1 = takeWhile is_space (drop 8 h)"
  define d where "d = dropWhile is_space (drop 8 h)"
  from assms have t8: "take 8 h = ''extends:''" and ne: "w1 \<noteq> []"
    and dd: "d = [] \<or> (hd d = CHR ''-'' \<and> tl d \<noteq> [] \<and> list_all is_space (tl d))"
    by (auto simp: directive_def Let_def w1_def d_def)
  have h: "h = ''extends:'' @ w1 @ d"
    using take8_append [OF t8] by (simp add: w1_def d_def)
  have sp: "list_all is_space w1"
    unfolding w1_def list_all_iff by (metis (full_types) set_takeWhileD)
  from dd show ?thesis
  proof
    assume "d = []"
    then show ?thesis using that(1) h ne sp by simp
  next
    assume a: "hd d = CHR ''-'' \<and> tl d \<noteq> [] \<and> list_all is_space (tl d)"
    then have "d = CHR ''-'' # tl d" by (cases d) auto
    then show ?thesis using that(2) [of w1 "tl d"] h ne sp a by simp
  qed
qed

lemma spaces_then:
  assumes "list_all is_space ws"
  shows "takeWhile is_space (ws @ x) = ws @ takeWhile is_space x"
    and "dropWhile is_space (ws @ x) = dropWhile is_space x"
  using assms by (simp_all add: list_all_iff)

lemma nonspace_first:
  assumes "r \<noteq> []" "\<not> is_space (hd r)"
  shows "takeWhile is_space r = []" and "dropWhile is_space r = r"
  using assms by (cases r; simp)+

lemma header_split_directive:
  assumes "directive h" "r \<noteq> []" "\<not> is_space (hd r)" "hd r \<noteq> CHR ''-''"
  shows "header_split (h @ r) = Some (h, r)"
  using assms(1)
proof (cases rule: directive_cases)
  case (1 w1)
  have "hd r \<in> set r" using assms(2) by simp
  then have "\<exists>x\<in>set w1 \<union> set r. \<not> is_space x" using assms(3) by blast
  then show ?thesis
    using 1 assms(2-4) by (simp add: header_split_def Let_def spaces_then nonspace_first)
next
  case (2 w1 w2)
  have "\<not> is_space CHR ''-''" by (rule dash_not_space)
  then have d: "takeWhile is_space (CHR ''-'' # w2 @ r) = []"
    "dropWhile is_space (CHR ''-'' # w2 @ r) = CHR ''-'' # w2 @ r"
    by simp_all
  have "hd r \<in> set r" using assms(2) by simp
  then have "\<exists>x\<in>set w2 \<union> set r. \<not> is_space x" using assms(3) by blast
  then show ?thesis
    using 2 assms(2-4)
    by (simp add: header_split_def Let_def spaces_then nonspace_first d dash_not_space)
qed

lemma directive_split:
  assumes "directive h"
  obtains w where "h = ''extends:'' @ w" "w \<noteq> []"
  using assms by (cases rule: directive_cases) auto

lemma colon_not_space: "\<not> is_space CHR '':''"
  by (simp add: is_space_def)

lemma header_split_before_directive:
  assumes "directive h" "a \<noteq> []"
  shows "header_split (a @ h @ r) = None \<longleftrightarrow>
           \<not> (take 8 (a @ ''extends'') = ''extends:''
              \<and> takeWhile is_space (drop 8 (a @ ''extends'')) \<noteq> [])"
proof -
  from assms(1) obtain w where h: "h = ''extends:'' @ w" by (rule directive_split)
  define y where "y = a @ ''extends''"
  have len: "8 \<le> length y" using assms(2) by (cases a) (simp_all add: y_def)
  have x: "a @ h @ r = y @ CHR '':'' # (w @ r)" by (simp add: y_def h)
  have t: "take 8 (a @ h @ r) = take 8 y" using len by (simp add: x)
  have d: "drop 8 (a @ h @ r) = drop 8 y @ CHR '':'' # (w @ r)" using len by (simp add: x)
  have tw: "takeWhile is_space (drop 8 (a @ h @ r)) = takeWhile is_space (drop 8 y)"
    unfolding d using colon_not_space by (rule takeWhile_tail)
  have dw: "dropWhile is_space (drop 8 (a @ h @ r)) \<noteq> []"
    unfolding d using colon_not_space by (auto simp: dropWhile_eq_Nil_conv)
  show ?thesis
    unfolding header_split_None_iff t tw using dw by (simp add: y_def)
qed

lemma match_before_directive:
  assumes "directive h" "a \<noteq> []" "match_here extends_re bol (a @ h @ r) = None"
  shows "match_here extends_re bol (a @ h @ r') = None"
proof (cases bol)
  case False
  then show ?thesis by (simp add: match_extends)
next
  case True
  with assms(3) have "header_split (a @ h @ r) = None"
    by (auto simp: match_extends split: option.splits)
  then have "header_split (a @ h @ r') = None"
    using header_split_before_directive [OF assms(1,2)] by simp
  then show ?thesis by (simp add: match_extends)
qed

lemma search_Nil_pre:
  "search r bol s = Some ([], st) \<Longrightarrow> match_here r bol s = Some st"
  by (cases s) (auto split: option.splits)

lemma search_Cons_pre:
  "search r bol s = Some (c # pre, st) \<Longrightarrow>
     \<exists>cs. s = c # cs \<and> match_here r bol s = None \<and> search r (c = newline) cs = Some (pre, st)"
  by (cases s) (auto split: option.splits)

lemma search_replace_token:
  assumes "directive h"
    and "search extends_re bol (pre @ h @ r) = Some (pre, st)"
    and "r' \<noteq> []" "\<not> is_space (hd r')" "hd r' \<noteq> CHR ''-''"
  shows "search extends_re bol (pre @ h @ r') = Some (pre, h @ token r', after_token r', Some h)"
  using assms(2)
proof (induction pre arbitrary: bol)
  case Nil
  then have "match_here extends_re bol (h @ r) = Some st"
    using search_Nil_pre by fastforce
  then have bol by (auto simp: match_extends split: if_splits)
  moreover have "header_split (h @ r') = Some (h, r')"
    using assms(1,3,4,5) by (rule header_split_directive)
  ultimately have m: "match_here extends_re bol (h @ r')
      = Some (h @ token r', after_token r', Some h)"
    by (simp add: match_extends)
  from assms(1) obtain w where "h = ''extends:'' @ w" by (rule directive_split)
  then obtain c cs where "h @ r' = c # cs" by simp
  then show ?case using m by (simp del: append_Cons)
next
  case (Cons c pre)
  from search_Cons_pre [of extends_re bol "(c # pre) @ h @ r" c pre st] Cons.prems
  have none: "match_here extends_re bol ((c # pre) @ h @ r) = None"
    and next_: "search extends_re (c = newline) (pre @ h @ r) = Some (pre, st)"
    by auto
  have "match_here extends_re bol ((c # pre) @ h @ r') = None"
    using assms(1) _ none by (rule match_before_directive) simp
  moreover have "search extends_re (c = newline) (pre @ h @ r')
      = Some (pre, h @ token r', after_token r', Some h)"
    using next_ by (rule Cons.IH)
  ultimately show ?case by simp
qed

text \<open>
  Replacing the token of the first directive by a text without blanks moves no match:
  a second substitution finds the same directives, with the new text as their token.
\<close>

definition blank_free :: "string \<Rightarrow> bool" where
  "blank_free p = list_all (\<lambda>c. \<not> is_space c) p"

lemma token_append:
  assumes "blank_free q" "x = [] \<or> is_space (hd x)"
  shows "token (q @ x) = q" and "after_token (q @ x) = x"
proof -
  have q: "\<forall>c\<in>set q. \<not> is_space c" using assms(1) by (simp add: blank_free_def list_all_iff)
  have x: "takeWhile (\<lambda>c. \<not> is_space c) x = []" "dropWhile (\<lambda>c. \<not> is_space c) x = x"
    using assms(2) by (cases x; auto)+
  show "token (q @ x) = q" using q x by (simp add: token_def)
  show "after_token (q @ x) = x" using q x by (simp add: after_token_def)
qed

lemma subn_keeps_blank_head:
  assumes "s = [] \<or> is_space (hd s)"
  shows "subn t False s = [] \<or> is_space (hd (subn t False s))"
proof (cases "search extends_re False s")
  case None
  then show ?thesis using assms by (simp add: subn.simps [of t False s])
next
  case (Some x)
  then obtain pre m rest g where x: "search extends_re False s = Some (pre, m, rest, g)"
    by (cases x) auto
  from search_extends_SomeD [OF x] obtain h r where s: "s = pre @ h @ r"
    and b: "if pre = [] then False else last pre = newline"
    by blast
  from b have "pre \<noteq> []" by (auto split: if_splits)
  have "subn t False s = pre @ expand_template t m g @ subn t (last m = newline) rest"
    using x by (simp add: subn.simps [of t False s])
  then have "hd (subn t False s) = hd pre" using \<open>pre \<noteq> []\<close> by simp
  moreover have "hd s = hd pre" using s \<open>pre \<noteq> []\<close> by simp
  ultimately have "hd (subn t False s) = hd s" by simp
  moreover have "s \<noteq> []" using s \<open>pre \<noteq> []\<close> by simp
  ultimately show ?thesis using assms by simp
qed

lemma subn_absorb:
  assumes "blank_free q" "q \<noteq> []" "hd q \<noteq> CHR ''-''"
  shows "subn (T_group 1 # map T_lit p) bol (subn (T_group 1 # map T_lit q) bol s)
       = subn (T_group 1 # map T_lit p) bol s"
proof (induction "T_group 1 # map T_lit q" bol s rule: subn.induct)
  case (1 bol s)
  let ?tq = "T_group 1 # map T_lit q"
  define t where "t = T_group 1 # map T_lit p"
  show ?case
  proof (cases "search extends_re bol s")
    case None
    then show ?thesis by (simp add: subn.simps [of _ bol s])
  next
    case (Some x)
    then obtain pre m rest g where x: "search extends_re bol s = Some (pre, m, rest, g)"
      by (cases x) auto
    from search_extends_SomeD [OF x] obtain h r where s: "s = pre @ h @ r"
      and hs: "header_split (h @ r) = Some (h, r)" and m: "m = h @ token r"
      and rest: "rest = after_token r" and g: "g = Some h"
      by blast
    note hd = header_split_SomeD [OF hs]
    have tok: "token r \<noteq> []" using token_nonempty hd(3,4) by blast
    have nl: "(last m = newline) = False" using last_token_not_newline [OF tok] m by simp
    define X where "X = subn ?tq False rest"
    have ih: "subn t False X = subn t False rest"
      using "1.hyps" [OF x refl refl refl] nl by (simp add: X_def t_def)
    have Xhd: "X = [] \<or> is_space (hd X)"
      unfolding X_def rest using after_token_starts_blank by (rule subn_keeps_blank_head)
    have patched: "subn ?tq bol s = pre @ h @ q @ X"
      using x g nl by (simp add: X_def expand_template_plain subn.simps [of _ bol s])
    have qsp: "\<not> is_space (hd (q @ X))"
      using assms(1,2) by (cases q) (auto simp: blank_free_def)
    have "search extends_re bol (pre @ h @ (q @ X))
        = Some (pre, h @ token (q @ X), after_token (q @ X), Some h)"
      using hd(2) x [unfolded s] _ qsp
      by (rule search_replace_token) (use assms(2,3) in auto)
    then have found: "search extends_re bol (pre @ h @ q @ X) = Some (pre, h @ q, X, Some h)"
      using token_append [OF assms(1) Xhd] by simp
    have nl': "(last (h @ q) = newline) = False"
      using last_token_not_newline [of "q @ X" h] token_append(1) [OF assms(1) Xhd] assms(2)
      by simp
    have "subn t bol (pre @ h @ q @ X) = pre @ expand_template t (h @ q) (Some h) @ subn t False X"
      using found nl' by (simp add: subn.simps [of t bol "pre @ h @ q @ X"])
    moreover have "subn t bol s = pre @ expand_template t m g @ subn t False rest"
      using x nl by (simp add: subn.simps [of t bol s])
    moreover have "expand_template t (h @ q) (Some h) = expand_template t m g"
      using g by (simp add: t_def expand_template_plain)
    ultimately show ?thesis using patched ih by (simp add: t_def)
  qed
qed

text \<open>
  A token path is a plain path without blanks: the paths that the token of the pattern
  can hold. For these the substitution is idempotent, and a later substitution makes an
  earlier one forgotten.
\<close>

definition token_path :: "string \<Rightarrow> bool" where
  "token_path p = (plain_path p \<and> blank_free p)"

lemma token_path_head:
  assumes "token_path p"
  shows "p \<noteq> []" and "hd p \<noteq> CHR ''-''"
  using assms
  by (cases p; auto simp: token_path_def plain_path_def resource_path_def startswith_def)+

lemma re_sub_plain:
  "plain_path p \<Longrightarrow> re_sub (backslash # CHR ''1'' # p) s = Inr (subn (T_group 1 # map T_lit p) True s)"
  using plain_path_template [of p] by (simp add: re_sub_def del: parse_template.simps)

lemma re_sub_idempotent:
  assumes "token_path p" "re_sub (backslash # CHR ''1'' # p) s = Inr s'"
  shows "re_sub (backslash # CHR ''1'' # p) s' = Inr s'"
proof -
  have pp: "plain_path p" and bf: "blank_free p"
    using assms(1) by (simp_all add: token_path_def)
  from assms(2) have s': "s' = subn (T_group 1 # map T_lit p) True s"
    by (simp add: re_sub_plain [OF pp])
  show ?thesis
    unfolding re_sub_plain [OF pp] s'
    using subn_absorb [OF bf token_path_head [OF assms(1)], of p True s] by simp
qed

lemma re_sub_round_trip:
  assumes "token_path p1" "token_path p2"
    and "re_sub (backslash # CHR ''1'' # p1) s = Inr a"
    and "re_sub (backslash # CHR ''1'' # p2) a = Inr b"
  shows "re_sub (backslash # CHR ''1'' # p1) b = Inr a"
proof -
  have pp: "plain_path p1" "plain_path p2" and bf: "blank_free p1" "blank_free p2"
    using assms(1,2) by (simp_all add: token_path_def)
  from assms(3) have a: "a = subn (T_group 1 # map T_lit p1) True s"
    by (simp add: re_sub_plain [OF pp(1)])
  from assms(4) have b: "b = subn (T_group 1 # map T_lit p2) True a"
    by (simp add: re_sub_plain [OF pp(2)])
  have "subn (T_group 1 # map T_lit p1) True b = subn (T_group 1 # map T_lit p1) True a"
    unfolding b using bf(2) token_path_head [OF assms(2)] by (rule subn_absorb)
  also have "\<dots> = a"
    unfolding a using bf(1) token_path_head [OF assms(1)] by (rule subn_absorb)
  finally show ?thesis by (simp add: re_sub_plain [OF pp(1)])
qed

lemma load_after_write:
  "load_resource (write_file (physical_path w p) t w) p = Some t"
  by (simp add: load_resource_def write_file_def physical_path_def)

lemma run_again_no_write:
  assumes u: "syntax_from_path w syntax_file = Some u"
    and d: "syntax_from_path w dialect_file = Some d"
    and tp: "token_path (path d)"
    and load: "load_resource w (path u) = Some old_content"
    and ret: "run w syntax_file dialect_file = Inr w'"
  shows "run w' syntax_file dialect_file = Inr w'"
proof -
  have pp: "plain_path (path d)" using tp by (simp add: token_path_def)
  obtain new_content
    where sub: "re_sub (backslash # CHR ''1'' # path d) old_content = Inr new_content"
    by (simp add: re_sub_plain [OF pp])
  have again: "re_sub (backslash # CHR ''1'' # path d) new_content = Inr new_content"
    using tp sub by (rule re_sub_idempotent)
  show ?thesis
  proof (cases "old_content = new_content")
    case True
    then have "w' = w" using ret u d load sub by (simp add: run_def)
    then show ?thesis using u d load sub True by (simp add: run_def)
  next
    case False
    then have w': "w' = write_file (physical_path w (path u)) new_content w"
      using ret u d load sub by (simp add: run_def)
    have "syntax_from_path w' = syntax_from_path w"
      by (simp add: w' write_file_def)
    moreover have "load_resource w' (path u) = Some new_content"
      unfolding w' by (rule load_after_write)
    ultimately show ?thesis using u d again by (simp add: run_def)
  qed
qed

lemma run_plain:
  assumes u: "syntax_from_path w syntax_file = Some u"
    and d: "syntax_from_path w dialect_file = Some d"
    and pp: "plain_path (path d)"
    and load: "load_resource w (path u) = Some old_content"
  shows "\<exists>w'. run w syntax_file dialect_file = Inr w'
           \<and> syntax_from_path w' = syntax_from_path w
           \<and> load_resource w' (path u)
               = Some (subn (T_group 1 # map T_lit (path d)) True old_content)"
proof -
  let ?new = "subn (T_group 1 # map T_lit (path d)) True old_content"
  have sub: "re_sub (backslash # CHR ''1'' # path d) old_content = Inr ?new"
    using pp by (rule re_sub_plain)
  show ?thesis
  proof (cases "old_content = ?new")
    case True
    then have "run w syntax_file dialect_file = Inr w"
      using u d load sub by (simp add: run_def)
    then show ?thesis using load True by simp
  next
    case False
    then have "run w syntax_file dialect_file
        = Inr (write_file (physical_path w (path u)) ?new w)"
      using u d load sub by (simp add: run_def)
    moreover have "syntax_from_path (write_file (physical_path w (path u)) ?new w)
        = syntax_from_path w"
      by (simp add: write_file_def)
    ultimately show ?thesis using load_after_write by simp
  qed
qed

lemma run_round_trip:
  assumes u: "syntax_from_path w syntax_file = Some u"
    and d1: "syntax_from_path w dialect1 = Some d1"
    and d2: "syntax_from_path w dialect2 = Some d2"
    and tp1: "token_path (path d1)" and tp2: "token_path (path d2)"
    and load: "load_resource w (path u) = Some old_content"
    and r1: "run w syntax_file dialect1 = Inr w1"
    and r2: "run w1 syntax_file dialect2 = Inr w2"
    and r3: "run w2 syntax_file dialect1 = Inr w3"
  shows "load_resource w3 (path u) = load_resource w1 (path u)"
proof -
  let ?t1 = "T_group 1 # map T_lit (path d1)"
  let ?t2 = "T_group 1 # map T_lit (path d2)"
  have pp: "plain_path (path d1)" "plain_path (path d2)"
    and bf: "blank_free (path d1)" "blank_free (path d2)"
    using tp1 tp2 by (simp_all add: token_path_def)
  define a where "a = subn ?t1 True old_content"
  from run_plain [OF u d1 pp(1) load] r1
  have s1: "syntax_from_path w1 = syntax_from_path w" and l1: "load_resource w1 (path u) = Some a"
    by (simp_all add: a_def)
  from run_plain [of w1 syntax_file u dialect2 d2 a] u d2 pp(2) s1 l1 r2
  have s2: "syntax_from_path w2 = syntax_from_path w"
    and l2: "load_resource w2 (path u) = Some (subn ?t2 True a)"
    by simp_all
  from run_plain [of w2 syntax_file u dialect1 d1 "subn ?t2 True a"] u d1 pp(1) s2 l2 r3
  have "load_resource w3 (path u) = Some (subn ?t1 True (subn ?t2 True a))"
    by simp
  also have "subn ?t1 True (subn ?t2 True a) = subn ?t1 True a"
    using bf(2) token_path_head [OF tp2] by (rule subn_absorb)
  also have "\<dots> = a"
    unfolding a_def using bf(1) token_path_head [OF tp1] by (rule subn_absorb)
  finally show ?thesis using l1 by simp
qed

text \<open>
  The number of lines of a text that begin with \<^verbatim>\<open>extends:\<close>. Each match of the pattern
  uses up one such line, so a text with one such line gets at most one substitution; for
  a plain path the one token is then replaced by the path itself.
\<close>

definition at_directive :: "bool \<Rightarrow> string \<Rightarrow> bool" where
  "at_directive bol s = (bol \<and> take 8 s = ''extends:'')"

fun extends_lines :: "bool \<Rightarrow> string \<Rightarrow> nat" where
  "extends_lines bol [] = 0"
| "extends_lines bol (c # cs) =
     (if at_directive bol (c # cs) then 1 else 0) + extends_lines (c = newline) cs"

lemma extends_lines_suffix:
  "extends_lines (if a = [] then bol else last a = newline) x \<le> extends_lines bol (a @ x)"
proof (induction a arbitrary: bol)
  case Nil
  then show ?case by simp
next
  case (Cons c a)
  have "extends_lines (if a = [] then c = newline else last a = newline) x
      \<le> extends_lines (c = newline) (a @ x)"
    by (rule Cons.IH)
  then show ?case by (auto simp: le_SucI)
qed

lemma search_counts_line:
  assumes "search extends_re bol s = Some (pre, m, rest, g)"
  shows "Suc (extends_lines False rest) \<le> extends_lines bol s"
proof -
  from search_extends_SomeD [OF assms] obtain h r where s: "s = pre @ h @ r"
    and hs: "header_split (h @ r) = Some (h, r)" and m: "m = h @ token r"
    and rest: "rest = after_token r"
    and b: "if pre = [] then bol else last pre = newline"
    by blast
  note hd = header_split_SomeD [OF hs]
  from hd(2) obtain w where h: "h = ''extends:'' @ w" by (rule directive_split)
  have tok: "token r \<noteq> []" using token_nonempty hd(3,4) by blast
  define y where "y = tl (h @ token r)"
  have hy: "h @ token r = CHR ''e'' # y" by (simp add: y_def h)
  have hr: "h @ r = CHR ''e'' # y @ rest"
    using hy rest by (metis append_Cons append_assoc token_after_token)
  have "y \<noteq> []" by (simp add: y_def h)
  moreover have "last (CHR ''e'' # y) \<noteq> newline"
    using last_token_not_newline [OF tok, of h] hy by simp
  ultimately have ynl: "(if y = [] then False else last y = newline) = False" by simp
  have "extends_lines False rest \<le> extends_lines False (y @ rest)"
    using extends_lines_suffix [of y False rest] ynl by simp
  moreover have "at_directive True (h @ r)" by (simp add: at_directive_def h)
  ultimately have "Suc (extends_lines False rest) \<le> extends_lines True (h @ r)"
    unfolding hr by (simp add: newline_def)
  also have "extends_lines True (h @ r) \<le> extends_lines bol (pre @ h @ r)"
    using extends_lines_suffix [of pre bol "h @ r"] b by (auto split: if_splits)
  finally show ?thesis using s by simp
qed

lemma one_line_one_substitution:
  assumes one: "extends_lines True s \<le> 1"
    and pp: "plain_path p"
    and found: "search extends_re True s = Some (pre, m, rest, g)"
  shows "\<exists>h tok. s = pre @ h @ tok @ rest \<and> directive h \<and> tok \<noteq> []
           \<and> re_sub (backslash # CHR ''1'' # p) s = Inr (pre @ h @ p @ rest)"
proof -
  from search_extends_SomeD [OF found] obtain h r where s: "s = pre @ h @ r"
    and hs: "header_split (h @ r) = Some (h, r)" and m: "m = h @ token r"
    and rest: "rest = after_token r" and g: "g = Some h"
    by blast
  note hd = header_split_SomeD [OF hs]
  have tok: "token r \<noteq> []" using token_nonempty hd(3,4) by blast
  have nl: "(last m = newline) = False" using last_token_not_newline [OF tok] m by simp
  have "extends_lines False rest = 0"
    using search_counts_line [OF found] one by simp
  then have none: "search extends_re False rest = None"
    using search_counts_line [of False rest] by (cases "search extends_re False rest") fastforce+
  have "subn (T_group 1 # map T_lit p) True s = pre @ h @ p @ rest"
    using found g nl none
    by (simp add: subn.simps [of _ True s] subn.simps [of _ False rest] expand_template_plain)
  then have "re_sub (backslash # CHR ''1'' # p) s = Inr (pre @ h @ p @ rest)"
    by (simp add: re_sub_plain [OF pp])
  moreover have "s = pre @ h @ token r @ rest" using s rest by simp
  ultimately show ?thesis using hd(2) tok by blast
qed

section \<open>Where the patcher departs from its contract\<close>

text \<open>
  Claim C4. The token of the pattern is a run of non-blank characters, but a resource
  path may have blanks. After a patch with such a path the next patch with the same path
  takes the first word of the path for the token and replaces only that: the text
  changes again, and the directive no longer names the dialect.
\<close>

theorem patch_twice_not_idempotent:
  "content_after
     (run (sql_world sql_text) ''Packages/SQL/SQL.sublime-syntax''
        ''Packages/SQL Dialects/TSQL.sublime-syntax'')
     ''Packages/SQL/SQL.sublime-syntax'' = Some sql_text_tsql
   \<and> content_after
     (run_then
        (run (sql_world sql_text) ''Packages/SQL/SQL.sublime-syntax''
           ''Packages/SQL Dialects/TSQL.sublime-syntax'')
        ''Packages/SQL/SQL.sublime-syntax'' ''Packages/SQL Dialects/TSQL.sublime-syntax'')
     ''Packages/SQL/SQL.sublime-syntax'' = Some sql_text_tsql_twice
   \<and> sql_text_tsql_twice \<noteq> sql_text_tsql"
  by code_simp

text \<open>
  Claim C5. For the same reason a patch back to the first dialect, after a patch to a
  dialect whose path has a blank, leaves the rest of that path behind the token: the
  text is not the one the first patch had produced.
\<close>

theorem round_trip_leaves_residue:
  "content_after
     (run (sql_world sql_text_postgresql) ''Packages/SQL/SQL.sublime-syntax''
        ''Packages/SQL/MySQL.sublime-syntax'')
     ''Packages/SQL/SQL.sublime-syntax'' = Some sql_text
   \<and> content_after
     (run_then
        (run (sql_world sql_text_postgresql) ''Packages/SQL/SQL.sublime-syntax''
           ''Packages/SQL/MySQL.sublime-syntax'')
        ''Packages/SQL/SQL.sublime-syntax'' ''Packages/SQL Dialects/TSQL.sublime-syntax'')
     ''Packages/SQL/SQL.sublime-syntax'' = Some sql_text_tsql
   \<and> content_after
     (run_then
        (run_then
           (run (sql_world sql_text_postgresql) ''Packages/SQL/SQL.sublime-syntax''
              ''Packages/SQL/MySQL.sublime-syntax'')
           ''Packages/SQL/SQL.sublime-syntax'' ''Packages/SQL Dialects/TSQL.sublime-syntax'')
        ''Packages/SQL/SQL.sublime-syntax'' ''Packages/SQL/MySQL.sublime-syntax'')
     ''Packages/SQL/SQL.sublime-syntax'' = Some sql_text_mysql_residue
   \<and> sql_text_mysql_residue \<noteq> sql_text"
  by code_simp

text \<open>
  Claim C7. The path of the dialect is pasted into the replacement template, where a
  backslash is an escape: for a path with the characters \<^verbatim>\<open>\t\<close> the text written has a tab
  in their place, so that the token is not replaced by the dialect's path.
\<close>

theorem template_escape_in_path:
  "syntax_from_path (sql_world sql_text) (path test_syntax) = Some test_syntax
   \<and> content_after
     (run (sql_world sql_text) ''Packages/SQL/SQL.sublime-syntax'' (path test_syntax))
     ''Packages/SQL/SQL.sublime-syntax'' = Some sql_text_tab
   \<and> sql_text_tab \<noteq>
       ''name: SQL\<newline>scope: source.sql\<newline>\<newline>extends: '' @ path test_syntax
         @ ''\<newline>\<newline>file_extensions:\<newline>  - sql\<newline>''"
  by code_simp

end
